theory Spec2Isabelle
  imports Main
begin

section \<open>Nano\_WebRelay8: request handling of the relay web server\<close>

text \<open>
  The sketch \<^verbatim>\<open>Nano_WebRelay8.ino\<close> answers one HTTP request per pass through
  \<^verbatim>\<open>loop()\<close>. This theory embeds \<^verbatim>\<open>loop\<close>, \<^verbatim>\<open>getGetData\<close>,
  \<^verbatim>\<open>changeRelayStatus\<close>, \<^verbatim>\<open>printRelayStatus\<close>, \<^verbatim>\<open>returnErr\<close> and
  \<^verbatim>\<open>returnHeader\<close> as functions and proves properties of them.

  Conventions of the embedding.
  \<^item> The bytes written to the client are a \<open>string\<close>; the array \<^verbatim>\<open>portStatus\<close> is a
    \<open>bool list\<close> with one entry per relay. Every function returns the bytes it sent
    together with the array as it leaves it.
  \<^item> A pointer into the request buffer is the index of the byte it points to. The
    buffer \<^verbatim>\<open>msg\<close> holds the \<open>size\<close> bytes read and the terminator written by
    \<^verbatim>\<open>*(msg+size) = 0\<close>.
  \<^item> The relay count \<^verbatim>\<open>numRelays\<close> is an argument \<open>n\<close> of the functions, so that
    statements can range over it; the sketch is the instance \<open>n = numRelays = 8\<close>.
  \<^item> \<^verbatim>\<open>digitalWrite\<close> drives a pin and stores nothing the program reads back; the
    embedding keeps the stored state \<^verbatim>\<open>portStatus\<close> only.
  \<^item> The two \<^verbatim>\<open>memcpy\<close> calls of \<^verbatim>\<open>changeRelayStatus\<close> write through the pointers
    \<^verbatim>\<open>relNumChar\<close> and \<^verbatim>\<open>statChar\<close>, which the sketch declares and never
    initialises, and store no terminator; \<^verbatim>\<open>atoi\<close> then reads from there up to the
    first byte that is no digit. What it reads depends on where the pointers point
    and on what that memory holds. Both are arguments of the embedding: the two
    pointers are addresses \<open>relNumChar\<close> and \<open>statChar\<close> in a destination memory
    \<open>dst\<close>, which every function takes and returns as the copies leave it. The two
    addresses may be equal or apart. Two instances are evaluated throughout:
    \<open>relNumChar = 0\<close>, \<open>statChar = 8\<close> (two buffers) and \<open>relNumChar = statChar = 0\<close>
    (one shared buffer), each on zeroed memory \<open>dst = []\<close>.
  \<^item> The destination memory is taken to be apart from the request buffer and from
    \<^verbatim>\<open>portStatus\<close>, and so is the byte that \<^verbatim>\<open>*(command+(size_t)msgEnd) = 0\<close>
    stores at the head of \<^verbatim>\<open>changeRelayStatus\<close>: where these land depends on the
    memory layout of the board.
\<close>

subsection \<open>Configuration and constants (lines 107--174)\<close>

definition numRelays :: nat where
  "numRelays = 8"

definition maxSize :: nat where
  "maxSize = 480"

definition VERSION :: string where
  "VERSION = ''{\"version\":\"0.3.OPENHAB\"}''"

definition REQ_ABOUT :: string where
  "REQ_ABOUT = ''/about''"

definition GET :: string where
  "GET = ''GET''"

definition POST :: string where
  "POST = ''POST''"

definition RC_ERR :: nat where
  "RC_ERR = 500"

definition RC_OK :: nat where
  "RC_OK = 200"

definition R_OFF :: int where
  "R_OFF = 0"

definition R_ON :: int where
  "R_ON = 1"

definition R_INV :: int where
  "R_INV = 2"

definition TOK_AND :: char where
  "TOK_AND = CHR ''&''"

definition TOK_EQU :: char where
  "TOK_EQU = CHR ''=''"

text \<open>\<^verbatim>\<open>const int RCL = 2 + (numRelays > 9 ? 2 : 1)\<close>.\<close>

definition RCL :: "nat \<Rightarrow> nat" where
  "RCL n = 2 + (if n > 9 then 2 else 1)"

definition NUL :: char where
  "NUL = CHR 0x00"

definition NL :: char where
  "NL = CHR 0x0A"

definition CR :: char where
  "CR = CHR 0x0D"

definition JSS :: char where
  "JSS = CHR 0x22"

definition OH_ON :: string where
  "OH_ON = ''ON''"

definition OH_OFF :: string where
  "OH_OFF = ''OFF''"

definition RS_START :: string where
  "RS_START = ''{\"r\":[''"

definition RS_END :: string where
  "RS_END = '']}''"

definition RS_SEP :: char where
  "RS_SEP = CHR '',''"

definition RS_ERR_START :: string where
  "RS_ERR_START = ''{\"e\":''"

definition RS_ERR_END :: char where
  "RS_ERR_END = CHR ''}''"

definition HD_START :: string where
  "HD_START = ''HTTP/1.1 ''"

definition HD_END :: string where
  "HD_END = [CHR '' '', NL] @ ''Content-Type: application/json'' @ [NL]
            @ ''Connection: close'' @ [NL, NL]"

subsection \<open>Library functions the sketch calls\<close>

text \<open>
  \<^verbatim>\<open>Print::print(int)\<close> writes a number in decimal; \<^verbatim>\<open>println\<close> appends
  carriage return and line feed.
\<close>

definition digit_char :: "nat \<Rightarrow> char" where
  "digit_char d = char_of (48 + d)"

fun decimal :: "nat \<Rightarrow> string" where
  "decimal k = (if k < 10 then [digit_char k] else decimal (k div 10) @ [digit_char (k mod 10)])"

declare decimal.simps [simp del]

definition println :: "string \<Rightarrow> string" where
  "println s = s @ [CR, NL]"

text \<open>
  Memory is read through a function from indices to bytes. \<open>cstr s\<close> is a byte
  sequence followed by its terminator; \<open>heap req hi\<close> is the request buffer (the
  bytes read, then the terminator) followed by whatever the memory behind the
  allocation holds, \<open>hi\<close>.
\<close>

type_synonym mem = "nat \<Rightarrow> char"

definition cstr :: "char list \<Rightarrow> mem" where
  "cstr s i = (if i < length s then s ! i else NUL)"

definition heap :: "char list \<Rightarrow> mem \<Rightarrow> mem" where
  "heap req hi i =
     (if i < length req then req ! i
      else if i = length req then NUL
      else hi (i - Suc (length req)))"

text \<open>\<^verbatim>\<open>memchr(p, c, k)\<close>: the first of the \<open>k\<close> bytes from \<open>p\<close> that equals \<open>c\<close>.\<close>

fun memchr :: "mem \<Rightarrow> nat \<Rightarrow> char \<Rightarrow> nat \<Rightarrow> nat option" where
  "memchr m p c 0 = None"
| "memchr m p c (Suc k) = (if m p = c then Some p else memchr m (Suc p) c k)"

text \<open>
  \<^verbatim>\<open>strncmp(p, lit, k) == 0\<close> and \<^verbatim>\<open>strcmp(p, lit) == 0\<close> for a literal without a
  zero byte: the first \<open>k\<close> bytes agree, respectively the bytes agree up to and with
  the terminator.
\<close>

definition strncmp0 :: "mem \<Rightarrow> nat \<Rightarrow> string \<Rightarrow> nat \<Rightarrow> bool" where
  "strncmp0 m p lit k = (map m [p..<p + k] = take k lit)"

definition strcmp0 :: "mem \<Rightarrow> nat \<Rightarrow> string \<Rightarrow> bool" where
  "strcmp0 m p lit = (map m [p..<p + length lit + 1] = lit @ [NUL])"

text \<open>
  \<^verbatim>\<open>atoi\<close>: white space is skipped, an optional sign is read, then decimal digits
  up to the first byte that is not a digit; without a digit the result is 0.
\<close>

definition isspace :: "char \<Rightarrow> bool" where
  "isspace c = (c = CHR '' '' \<or> (9 \<le> (of_char c :: nat) \<and> (of_char c :: nat) \<le> 13))"

definition isdigit :: "char \<Rightarrow> bool" where
  "isdigit c = (48 \<le> (of_char c :: nat) \<and> (of_char c :: nat) \<le> 57)"

fun digits :: "int \<Rightarrow> char list \<Rightarrow> int" where
  "digits acc [] = acc"
| "digits acc (c # cs) =
     (if isdigit c then digits (acc * 10 + (int (of_char c) - 48)) cs else acc)"

definition atoi :: "char list \<Rightarrow> int" where
  "atoi s =
     (case dropWhile isspace s of
        [] \<Rightarrow> 0
      | c # cs \<Rightarrow>
          if c = CHR ''-'' then - digits 0 cs
          else if c = CHR ''+'' then digits 0 cs
          else digits 0 (c # cs))"


definition memcpy :: "char list \<Rightarrow> nat \<Rightarrow> char list \<Rightarrow> char list" where
  "memcpy dst p bytes =
     (let d = dst @ replicate (p + length bytes - length dst) NUL
      in take p d @ bytes @ drop (p + length bytes) d)"

definition readInt :: "char list \<Rightarrow> nat \<Rightarrow> char list \<Rightarrow> char list \<times> int" where
  "readInt dst p bytes = (let dst' = memcpy dst p bytes in (dst', atoi (drop p dst')))"

subsection \<open>Responses (lines 439--474)\<close>

definition returnHeader :: "nat \<Rightarrow> string" where
  "returnHeader httpCode = HD_START @ decimal httpCode @ HD_END"

definition returnErr :: "nat \<Rightarrow> string" where
  "returnErr rc = RS_ERR_START @ decimal rc @ println [RS_ERR_END]"

definition printRelayStatus :: "nat \<Rightarrow> bool list \<Rightarrow> string" where
  "printRelayStatus n portStatus =
     (let lastRelay = n - 1 in
      RS_START
      @ concat (map (\<lambda>i. [JSS] @ (if portStatus ! i then OH_ON else OH_OFF) @ [JSS]
                          @ (if i < lastRelay then [RS_SEP] else []))
                    [0..<n])
      @ println RS_END)"

subsection \<open>The command parser (lines 319--432)\<close>

text \<open>The \<^verbatim>\<open>switch(stat)\<close> of lines 399--425; \<open>None\<close> is its default branch.\<close>

definition switchStat :: "bool list \<Rightarrow> nat \<Rightarrow> int \<Rightarrow> bool list option" where
  "switchStat portStatus relNum stat =
     (if stat = R_ON then
        Some (if portStatus ! relNum \<noteq> True then portStatus[relNum := True] else portStatus)
      else if stat = R_OFF then
        Some (if portStatus ! relNum \<noteq> False then portStatus[relNum := False] else portStatus)
      else if stat = R_INV then
        Some (portStatus[relNum := \<not> portStatus ! relNum])
      else None)"

text \<open>
  One pass through the body of the \<^verbatim>\<open>do ... while(src)\<close> of lines 342--428, entered
  with \<^verbatim>\<open>src\<close> at index \<open>src\<close> of the command. \<open>Inl (rc, dst')\<close> is a \<^verbatim>\<open>return\<close>
  after \<^verbatim>\<open>returnErr(client, rc)\<close>; \<open>Inr (portStatus', dst', nxt)\<close> is the end of the
  body with the new array and the new value of \<^verbatim>\<open>src\<close> (\<open>None\<close> for the null
  pointer). In both \<open>dst'\<close> is the destination memory as the copies made so far
  leave it.

  The two searches end at \<^verbatim>\<open>msgEnd\<close>, the terminator, so the body reads nothing
  of the command behind it. \<^verbatim>\<open>src\<close> never passes \<^verbatim>\<open>msgEnd\<close> and a \<^verbatim>\<open>=\<close> that was
  found lies before it (lemma \<open>iteration_advances\<close>), so each difference of
  pointers is taken from the larger one and is written as a difference of indices.
  The bytes that \<^verbatim>\<open>memcpy\<close> copies are \<open>take\<close> of \<open>drop\<close> of the command.
\<close>

definition iteration ::
  "nat \<Rightarrow> nat \<Rightarrow> nat \<Rightarrow> char list \<Rightarrow> nat \<Rightarrow> bool list \<Rightarrow> char list
   \<Rightarrow> (nat \<times> char list) + (bool list \<times> char list \<times> nat option)" where
  "iteration n relNumChar statChar command src portStatus dst =
     (let msgEnd = length command;
          srcNum = msgEnd - src;
          lastSrc = src
      in case memchr (cstr command) (src + 1) TOK_EQU srcNum of
           None \<Rightarrow> Inl (6, dst)
         | Some eq \<Rightarrow>
             let relLen = eq - lastSrc in
             if \<not> relLen \<le> RCL n then Inl (4, dst)
             else
               let (dst1, relNum) = readInt dst relNumChar (take relLen (drop lastSrc command)) in
               if \<not> (relNum < int n \<and> relNum \<ge> 0) then Inl (4, dst1)
               else
                 let lastSrc2 = eq + 1;
                     srcNum2 = msgEnd - eq - 1;
                     nxt = memchr (cstr command) (eq + 2) TOK_AND srcNum2;
                     statLen = (case nxt of Some a \<Rightarrow> a - lastSrc2 | None \<Rightarrow> srcNum2)
                 in if statLen \<noteq> 1 then Inl (5, dst1)
                    else
                      let (dst2, stat) = readInt dst1 statChar (take statLen (drop lastSrc2 command)) in
                      case switchStat portStatus (nat relNum) stat of
                        None \<Rightarrow> Inl (5, dst2)
                      | Some portStatus' \<Rightarrow> Inr (portStatus', dst2, nxt))"

lemma memchr_range:
  "memchr m p c k = Some i \<Longrightarrow> p \<le> i \<and> i < p + k"
proof (induction k arbitrary: p)
  case 0
  then show ?case by simp
next
  case (Suc k)
  show ?case
  proof (cases "m p = c")
    case True
    with Suc.prems show ?thesis by simp
  next
    case False
    with Suc.prems have "memchr m (Suc p) c k = Some i" by simp
    from Suc.IH [OF this] show ?thesis by simp
  qed
qed

lemma iteration_advances:
  assumes "iteration n relNumChar statChar command src portStatus dst
           = Inr (portStatus', dst', Some a)"
  shows "src < a \<and> a \<le> length command"
proof -
  from assms obtain eq where
    eq: "memchr (cstr command) (src + 1) TOK_EQU (length command - src) = Some eq"
    and a: "memchr (cstr command) (eq + 2) TOK_AND (length command - eq - 1) = Some a"
    by (auto simp: iteration_def Let_def split: option.splits if_splits prod.splits)
  from memchr_range [OF eq] memchr_range [OF a] show ?thesis by auto
qed

text \<open>The loop itself, and after it lines 429--431.\<close>

function relayLoop ::
  "nat \<Rightarrow> nat \<Rightarrow> nat \<Rightarrow> char list \<Rightarrow> nat \<Rightarrow> bool list \<Rightarrow> char list
   \<Rightarrow> string \<times> bool list \<times> char list" where
  "relayLoop n relNumChar statChar command src portStatus dst =
     (case iteration n relNumChar statChar command src portStatus dst of
        Inl (rc, dst') \<Rightarrow> (returnHeader RC_ERR @ returnErr rc, portStatus, dst')
      | Inr (portStatus', dst', None) \<Rightarrow>
          (returnHeader RC_OK @ printRelayStatus n portStatus', portStatus', dst')
      | Inr (portStatus', dst', Some a) \<Rightarrow>
          relayLoop n relNumChar statChar command a portStatus' dst')"
  by pat_completeness auto
termination
proof (relation "measure (\<lambda>(n, relNumChar, statChar, command, src, portStatus, dst).
                            length command - src)")
  show "wf (measure (\<lambda>(n, relNumChar, statChar, command, src, portStatus, dst).
                       length command - src))"
    by simp
next
  fix n relNumChar statChar command src portStatus dst x portStatus' y dst' nxt a
  assume "iteration n relNumChar statChar command src portStatus dst = Inr x"
    and "(portStatus', y) = x" and "(dst', nxt) = y" and "nxt = Some a"
  then have "iteration n relNumChar statChar command src portStatus dst
             = Inr (portStatus', dst', Some a)"
    by simp
  from iteration_advances [OF this]
  show "((n, relNumChar, statChar, command, a, portStatus', dst'),
         (n, relNumChar, statChar, command, src, portStatus, dst))
        \<in> measure (\<lambda>(n, relNumChar, statChar, command, src, portStatus, dst).
                       length command - src)"
    by auto
qed

declare relayLoop.simps [simp del]

text \<open>
  \<^verbatim>\<open>changeRelayStatus(client, command, msgEnd)\<close>; the argument is the bytes from
  \<^verbatim>\<open>command\<close> up to \<^verbatim>\<open>msgEnd\<close>, where every caller has stored a zero byte.
\<close>

definition changeRelayStatus ::
  "nat \<Rightarrow> nat \<Rightarrow> nat \<Rightarrow> bool list \<Rightarrow> char list \<Rightarrow> char list
   \<Rightarrow> string \<times> bool list \<times> char list" where
  "changeRelayStatus n relNumChar statChar portStatus dst command =
     (if length command < 3 then (returnHeader RC_ERR @ returnErr 3, portStatus, dst)
      else relayLoop n relNumChar statChar command 0 portStatus dst)"

subsection \<open>The request router (lines 198--306)\<close>

text \<open>
  \<^verbatim>\<open>getGetData(charArr, start)\<close> returns \<^verbatim>\<open>charArr+start\<close> after cutting the buffer
  at the first space among the ten bytes from there.
\<close>

definition getGetData :: "mem \<Rightarrow> nat \<Rightarrow> mem \<times> nat" where
  "getGetData charArr start =
     (let beg = start in
      case memchr charArr beg CHR '' '' 10 of
        Some e \<Rightarrow> (charArr(e := NUL), beg)
      | None \<Rightarrow> (charArr, beg))"

text \<open>
  The \<^verbatim>\<open>do ... while(src)\<close> of lines 267--274 that looks for the last line. The
  argument \<open>s\<close> is the index after \<^verbatim>\<open>src\<close>, since \<^verbatim>\<open>src\<close> starts one byte before
  the buffer; the result is \<^verbatim>\<open>lnl+1\<close>.
\<close>

function lastLine :: "mem \<Rightarrow> nat \<Rightarrow> nat \<Rightarrow> nat" where
  "lastLine m sz s =
     (case memchr m s NL (sz + 1 - s) of
        None \<Rightarrow> s
      | Some p \<Rightarrow> lastLine m sz (p + 1))"
  by pat_completeness auto
termination
proof (relation "measure (\<lambda>(m, sz, s). sz + 1 - s)")
  show "wf (measure (\<lambda>(m, sz, s). sz + 1 - s))"
    by simp
next
  fix m :: mem and sz s p :: nat
  assume "memchr m s NL (sz + 1 - s) = Some p"
  from memchr_range [OF this]
  show "((m, sz, p + 1), (m, sz, s)) \<in> measure (\<lambda>(m, sz, s). sz + 1 - s)"
    by auto
qed

declare lastLine.simps [simp del]

text \<open>
  One pass through \<^verbatim>\<open>loop()\<close> with a client that has the bytes \<open>req\<close> available.
  \<open>lo\<close> is the memory from address 1 up to the request buffer and \<open>hi\<close> the memory
  behind the buffer: the sketch reads both in the cases written out below.
  \<^item> The query-string search \<^verbatim>\<open>memchr(src+7, ' ', end-src)\<close> starts at byte 6 and
    runs over \<open>size + 1\<close> bytes, six more than the buffer has.
  \<^item> When no space is found, lines 263--264 send the error and control reaches
    line 277 with \<^verbatim>\<open>lnl\<close> still \<^verbatim>\<open>NULL\<close>: \<^verbatim>\<open>changeRelayStatus\<close> runs on the
    memory from address 1 to the end of the request.
\<close>

definition loop ::
  "nat \<Rightarrow> nat \<Rightarrow> nat \<Rightarrow> char list \<Rightarrow> mem \<Rightarrow> bool list \<Rightarrow> char list \<Rightarrow> char list
   \<Rightarrow> string \<times> bool list \<times> char list" where
  "loop n relNumChar statChar lo hi portStatus dst req =
     (let sz = length req in
      if \<not> sz > 0 then ([], portStatus, dst)
      else if sz > maxSize then (returnHeader RC_ERR @ returnErr 1, portStatus, dst)
      else
        let msg = heap req hi in
        if strncmp0 msg 0 GET 3 then
          (let (msg', data) = getGetData msg 4 in
           (returnHeader RC_OK
              @ (if strcmp0 msg' data REQ_ABOUT then println VERSION
                 else printRelayStatus n portStatus),
            portStatus, dst))
        else if strncmp0 msg 0 POST 4 then
          (if msg 6 = CHR ''?'' then
             (case memchr msg 6 CHR '' '' (sz + 1) of
                Some spaceLocation \<Rightarrow>
                  changeRelayStatus n relNumChar statChar portStatus dst
                    (map msg [7..<spaceLocation])
              | None \<Rightarrow>
                  (let (out, portStatus', dst') =
                         changeRelayStatus n relNumChar statChar portStatus dst (lo @ req)
                   in (returnHeader RC_ERR @ returnErr 6 @ out, portStatus', dst')))
           else changeRelayStatus n relNumChar statChar portStatus dst
                  (drop (lastLine msg sz 0) req))
        else (returnHeader RC_ERR @ returnErr 2, portStatus, dst))"

text \<open>What the client and the relays see of a result: the bytes sent and the array.\<close>

definition outcome :: "string \<times> bool list \<times> char list \<Rightarrow> string \<times> bool list" where
  "outcome r = (fst r, fst (snd r))"

section \<open>Properties\<close>

subsection \<open>The bytes of the responses\<close>

lemma returnHeader_RC_ERR:
  "returnHeader RC_ERR =
     ''HTTP/1.1 500 '' @ [CHR 0x0A] @ ''Content-Type: application/json'' @ [CHR 0x0A]
     @ ''Connection: close'' @ [CHR 0x0A, CHR 0x0A]"
  by code_simp

lemma returnHeader_RC_OK:
  "returnHeader RC_OK =
     ''HTTP/1.1 200 '' @ [CHR 0x0A] @ ''Content-Type: application/json'' @ [CHR 0x0A]
     @ ''Connection: close'' @ [CHR 0x0A, CHR 0x0A]"
  by code_simp

lemma returnErr_1: "returnErr 1 = ''{\"e\":1}'' @ [CHR 0x0D, CHR 0x0A]"
  by code_simp

lemma returnErr_4: "returnErr 4 = ''{\"e\":4}'' @ [CHR 0x0D, CHR 0x0A]"
  by code_simp

lemma returnErr_5: "returnErr 5 = ''{\"e\":5}'' @ [CHR 0x0D, CHR 0x0A]"
  by code_simp

lemma returnErr_6: "returnErr 6 = ''{\"e\":6}'' @ [CHR 0x0D, CHR 0x0A]"
  by code_simp

lemma println_VERSION: "println VERSION = ''{\"version\":\"0.3.OPENHAB\"}'' @ [CHR 0x0D, CHR 0x0A]"
  by code_simp

subsection \<open>Requests that never reach the parser\<close>

text \<open>
  C7. A request of more than \<open>maxSize = 480\<close> bytes is answered with the header for
  status 500 and the body \<^verbatim>\<open>{"e":1}\<close>, whatever its bytes are, and \<^verbatim>\<open>portStatus\<close>
  is as before. No copy is made either.
\<close>

theorem oversized_request_rejected:
  assumes "length req > maxSize"
  shows "loop n relNumChar statChar lo hi portStatus dst req
         = (returnHeader RC_ERR @ returnErr 1, portStatus, dst)
         \<and> returnErr 1 = ''{\"e\":1}'' @ [CHR 0x0D, CHR 0x0A]
         \<and> returnHeader RC_ERR =
             ''HTTP/1.1 500 '' @ [CHR 0x0A] @ ''Content-Type: application/json'' @ [CHR 0x0A]
             @ ''Connection: close'' @ [CHR 0x0A, CHR 0x0A]"
proof (intro conjI)
  from assms have "0 < length req" by (cases req) simp_all
  with assms show "loop n relNumChar statChar lo hi portStatus dst req
                   = (returnHeader RC_ERR @ returnErr 1, portStatus, dst)"
    by (simp add: loop_def Let_def)
  show "returnErr 1 = ''{\"e\":1}'' @ [CHR 0x0D, CHR 0x0A]"
    by (rule returnErr_1)
  show "returnHeader RC_ERR =
          ''HTTP/1.1 500 '' @ [CHR 0x0A] @ ''Content-Type: application/json'' @ [CHR 0x0A]
          @ ''Connection: close'' @ [CHR 0x0A, CHR 0x0A]"
    by (rule returnHeader_RC_ERR)
qed

theorem oversized_request_rejected_witness:
  "length (replicate 481 CHR ''a'') > maxSize
   \<and> loop numRelays 0 0 [] (\<lambda>i. NUL) (replicate 8 False) [] (replicate 481 CHR ''a'')
       = (returnHeader RC_ERR @ returnErr 1, replicate 8 False, [])"
  using oversized_request_rejected
    [of "replicate 481 CHR ''a''" numRelays 0 0 "[]" "\<lambda>i. NUL" "replicate 8 False" "[]"]
  by (simp add: maxSize_def)

lemma heap_below: "i < length req \<Longrightarrow> heap req hi i = req ! i"
  by (simp add: heap_def)

lemma strncmp0_prefix:
  assumes "take k req = take k lit" and "k \<le> length lit"
  shows "strncmp0 (heap req hi) 0 lit k"
proof -
  from assms have len: "k \<le> length req"
    by (metis length_take min.absorb2 min.cobounded1)
  have "map (heap req hi) [0..<k] = take k req"
    using len by (simp add: list_eq_iff_nth_eq heap_below)
  then show ?thesis
    using assms by (simp add: strncmp0_def)
qed

text \<open>
  C10. A request that starts with \<^verbatim>\<open>GET\<close> leaves \<^verbatim>\<open>portStatus\<close> as it was, whatever
  follows the method: the branch of lines 224--237 only reads the array. It makes
  no copy either.
\<close>

theorem get_leaves_bank:
  assumes "take 3 req = GET"
  shows "snd (loop n relNumChar statChar lo hi portStatus dst req) = (portStatus, dst)"
proof -
  have "strncmp0 (heap req hi) 0 GET 3"
    using assms by (intro strncmp0_prefix) (simp_all add: GET_def)
  then show ?thesis
    by (simp add: loop_def Let_def split: prod.splits)
qed

theorem get_leaves_bank_witness:
  "take 3 ''GET /x HTTP/1.1'' = GET
   \<and> snd (loop numRelays 0 0 [] (\<lambda>i. NUL) [True, False, True, False, False, False, False, True]
             ''&1'' ''GET /x HTTP/1.1'')
       = ([True, False, True, False, False, False, False, True], ''&1'')"
  using get_leaves_bank
    [of "''GET /x HTTP/1.1''" numRelays 0 0 "[]" "\<lambda>i. NUL"
        "[True, False, True, False, False, False, False, True]" "''&1''"]
  by (simp add: GET_def)

subsection \<open>Facts about \<open>memchr\<close> and the string comparisons\<close>

lemma memchr_None_iff:
  "memchr m p c k = None \<longleftrightarrow> (\<forall>j. p \<le> j \<and> j < p + k \<longrightarrow> m j \<noteq> c)"
proof (induction k arbitrary: p)
  case 0
  show ?case by auto
next
  case (Suc k)
  show ?case
  proof (cases "m p = c")
    case True
    then show ?thesis by auto
  next
    case False
    have "memchr m p c (Suc k) = None \<longleftrightarrow> memchr m (Suc p) c k = None"
      using False by simp
    also have "\<dots> \<longleftrightarrow> (\<forall>j. Suc p \<le> j \<and> j < Suc p + k \<longrightarrow> m j \<noteq> c)"
      by (rule Suc.IH)
    also have "\<dots> \<longleftrightarrow> (\<forall>j. p \<le> j \<and> j < p + Suc k \<longrightarrow> m j \<noteq> c)"
    proof
      assume h: "\<forall>j. Suc p \<le> j \<and> j < Suc p + k \<longrightarrow> m j \<noteq> c"
      show "\<forall>j. p \<le> j \<and> j < p + Suc k \<longrightarrow> m j \<noteq> c"
      proof (intro allI impI)
        fix j assume j: "p \<le> j \<and> j < p + Suc k"
        show "m j \<noteq> c"
        proof (cases "j = p")
          case True
          with False show ?thesis by simp
        next
          case False
          with j have "Suc p \<le> j \<and> j < Suc p + k" by auto
          with h show ?thesis by blast
        qed
      qed
    next
      assume h: "\<forall>j. p \<le> j \<and> j < p + Suc k \<longrightarrow> m j \<noteq> c"
      show "\<forall>j. Suc p \<le> j \<and> j < Suc p + k \<longrightarrow> m j \<noteq> c"
      proof (intro allI impI)
        fix j assume "Suc p \<le> j \<and> j < Suc p + k"
        then have "p \<le> j \<and> j < p + Suc k" by auto
        with h show "m j \<noteq> c" by blast
      qed
    qed
    finally show ?thesis .
  qed
qed

lemma memchr_first:
  "memchr m p c k = Some i \<Longrightarrow> m i = c \<and> (\<forall>j. p \<le> j \<and> j < i \<longrightarrow> m j \<noteq> c)"
proof (induction k arbitrary: p)
  case 0
  then show ?case by simp
next
  case (Suc k)
  show ?case
  proof (cases "m p = c")
    case True
    with Suc.prems show ?thesis by auto
  next
    case False
    with Suc.prems have s: "memchr m (Suc p) c k = Some i" by simp
    from Suc.IH [OF s] have hit: "m i = c"
      and before: "\<forall>j. Suc p \<le> j \<and> j < i \<longrightarrow> m j \<noteq> c" by auto
    have "\<forall>j. p \<le> j \<and> j < i \<longrightarrow> m j \<noteq> c"
    proof (intro allI impI)
      fix j assume j: "p \<le> j \<and> j < i"
      show "m j \<noteq> c"
      proof (cases "j = p")
        case True
        with False show ?thesis by simp
      next
        case False
        with j have "Suc p \<le> j \<and> j < i" by auto
        with before show ?thesis by blast
      qed
    qed
    with hit show ?thesis by simp
  qed
qed

lemma memchr_SomeI:
  assumes "p \<le> i" "i < p + k" "m i = c" "\<forall>j. p \<le> j \<and> j < i \<longrightarrow> m j \<noteq> c"
  shows "memchr m p c k = Some i"
proof (cases "memchr m p c k")
  case None
  with assms(1-3) show ?thesis by (auto simp: memchr_None_iff)
next
  case (Some i')
  from memchr_first [OF Some] memchr_range [OF Some]
  have a: "m i' = c" and b: "\<forall>j. p \<le> j \<and> j < i' \<longrightarrow> m j \<noteq> c" and c: "p \<le> i'"
    by auto
  have "\<not> i' < i" using assms(4) a c by blast
  moreover have "\<not> i < i'" using b assms(1,3) by blast
  ultimately have "i' = i" by simp
  with Some show ?thesis by simp
qed

declare memchr.simps [simp del]

lemma map_upt_eq_iff:
  "map m [p..<p + length lit] = lit \<longleftrightarrow> (\<forall>i<length lit. m (p + i) = lit ! i)"
proof
  assume h: "map m [p..<p + length lit] = lit"
  show "\<forall>i<length lit. m (p + i) = lit ! i"
  proof (intro allI impI)
    fix i assume i: "i < length lit"
    then have "map m [p..<p + length lit] ! i = m (p + i)" by simp
    with h show "m (p + i) = lit ! i" by simp
  qed
next
  assume "\<forall>i<length lit. m (p + i) = lit ! i"
  then show "map m [p..<p + length lit] = lit"
    by (intro nth_equalityI) simp_all
qed

lemma strcmp0_iff:
  "strcmp0 m p lit \<longleftrightarrow> (\<forall>i<length lit. m (p + i) = lit ! i) \<and> m (p + length lit) = NUL"
proof -
  have "[p..<p + length lit + 1] = [p..<p + length lit] @ [p + length lit]"
    by simp
  then have "strcmp0 m p lit \<longleftrightarrow> map m [p..<p + length lit] = lit \<and> m (p + length lit) = NUL"
    unfolding strcmp0_def by simp
  then show ?thesis
    by (simp only: map_upt_eq_iff)
qed

text \<open>
  C8. A request for \<^verbatim>\<open>/about\<close> of at most \<open>maxSize = 480\<close> bytes (the path ends the
  request or is followed by a space) is answered with the header for status 200 and
  the fixed text \<^verbatim>\<open>{"version":"0.3.OPENHAB"}\<close>, byte for byte the same for every
  \<^verbatim>\<open>portStatus\<close>, which it leaves as it was.
\<close>

theorem about_returns_version:
  assumes rest: "rest = [] \<or> hd rest = CHR '' ''"
    and len: "length (''GET /about'' @ rest) \<le> maxSize"
  shows "loop n relNumChar statChar lo hi portStatus dst (''GET /about'' @ rest)
         = (''HTTP/1.1 200 '' @ [CHR 0x0A] @ ''Content-Type: application/json'' @ [CHR 0x0A]
            @ ''Connection: close'' @ [CHR 0x0A, CHR 0x0A]
            @ ''{\"version\":\"0.3.OPENHAB\"}'' @ [CHR 0x0D, CHR 0x0A],
            portStatus, dst)"
proof -
  define req where "req = ''GET /about'' @ rest"
  define m where "m = heap req hi"
  have req: "req = ''GET '' @ REQ_ABOUT @ rest"
    by (simp add: req_def REQ_ABOUT_def)
  have sz: "0 < length req" "\<not> length req > maxSize" "length req = 10 + length rest"
    using len by (simp_all add: req_def)
  have about_len: "length REQ_ABOUT = 6"
    by (simp add: REQ_ABOUT_def)
  have get: "strncmp0 m 0 GET 3"
    unfolding m_def by (rule strncmp0_prefix) (simp_all add: req_def GET_def)
  have path: "m (4 + i) = REQ_ABOUT ! i" if "i < 6" for i
  proof -
    have "m (4 + i) = req ! (4 + i)"
      unfolding m_def using that sz by (intro heap_below) simp
    also have "\<dots> = (REQ_ABOUT @ rest) ! i"
      using nth_append_length_plus [of "''GET ''" "REQ_ABOUT @ rest" i] by (simp add: req)
    also have "\<dots> = REQ_ABOUT ! i"
      using that about_len by (simp add: nth_append)
    finally show ?thesis .
  qed
  have nospace: "m (4 + i) \<noteq> CHR '' ''" if "i < 6" for i
  proof -
    have "REQ_ABOUT ! i \<in> set REQ_ABOUT"
      using that about_len by (intro nth_mem) simp
    then have "REQ_ABOUT ! i \<noteq> CHR '' ''"
      by (auto simp: REQ_ABOUT_def)
    with path [OF that] show ?thesis by simp
  qed
  have m10: "m 10 = NUL \<or> m 10 = CHR '' ''"
  proof (cases rest)
    case Nil
    then show ?thesis by (simp add: m_def heap_def req_def)
  next
    case (Cons c cs)
    with rest have "c = CHR '' ''" by simp
    with Cons show ?thesis by (simp add: m_def heap_def req_def nth_append)
  qed
  obtain msg' where ggd: "getGetData m 4 = (msg', 4)"
    and keep: "\<And>i. i < 6 \<Longrightarrow> msg' (4 + i) = m (4 + i)" and cut: "msg' 10 = NUL"
  proof (cases "memchr m 4 CHR '' '' 10")
    case None
    then have "m 10 \<noteq> CHR '' ''"
      by (simp add: memchr_None_iff)
    with m10 have "m 10 = NUL" by simp
    with None that [of m] show ?thesis
      by (simp add: getGetData_def)
  next
    case (Some e)
    from memchr_first [OF Some] memchr_range [OF Some]
    have hit: "m e = CHR '' ''" and first: "\<forall>j. 4 \<le> j \<and> j < e \<longrightarrow> m j \<noteq> CHR '' ''"
      and "4 \<le> e" by auto
    have e10: "10 \<le> e"
    proof (rule ccontr)
      assume "\<not> 10 \<le> e"
      with \<open>4 \<le> e\<close> have "e - 4 < 6" "e = 4 + (e - 4)" by auto
      with nospace [of "e - 4"] hit show False by simp
    qed
    have "(m(e := NUL)) 10 = NUL"
    proof (cases "e = 10")
      case True
      then show ?thesis by simp
    next
      case False
      with e10 first have "m 10 \<noteq> CHR '' ''" by auto
      with m10 False show ?thesis by simp
    qed
    moreover have "(m(e := NUL)) (4 + i) = m (4 + i)" if "i < 6" for i
      using that e10 by simp
    ultimately show ?thesis
      using Some that [of "m(e := NUL)"] by (simp add: getGetData_def)
  qed
  have "strcmp0 msg' 4 REQ_ABOUT"
    unfolding strcmp0_iff using keep path cut about_len by simp
  with get ggd sz
  have "loop n relNumChar statChar lo hi portStatus dst (''GET /about'' @ rest)
        = (returnHeader RC_OK @ println VERSION, portStatus, dst)"
    unfolding req_def [symmetric] by (simp add: loop_def Let_def m_def [symmetric])
  then show ?thesis
    by (simp only: returnHeader_RC_OK println_VERSION append_assoc)
qed

theorem about_returns_version_witness:
  "hd '' HTTP/1.1'' = CHR '' '' \<and> length (''GET /about'' @ '' HTTP/1.1'') \<le> maxSize
   \<and> loop numRelays 0 0 [] (\<lambda>i. NUL) [True, False, True, False, False, False, False, True] []
         (''GET /about'' @ '' HTTP/1.1'')
       = (''HTTP/1.1 200 '' @ [CHR 0x0A] @ ''Content-Type: application/json'' @ [CHR 0x0A]
          @ ''Connection: close'' @ [CHR 0x0A, CHR 0x0A]
          @ ''{\"version\":\"0.3.OPENHAB\"}'' @ [CHR 0x0D, CHR 0x0A],
          [True, False, True, False, False, False, False, True], [])"
  using about_returns_version
    [of "'' HTTP/1.1''" numRelays 0 0 "[]" "\<lambda>i. NUL"
        "[True, False, True, False, False, False, False, True]" "[]"]
  by (simp add: maxSize_def)

text \<open>
  The bound on the size is needed: the same request line followed by 480 more bytes
  is answered with status 500 and \<^verbatim>\<open>{"e":1}\<close>.
\<close>

theorem oversized_about_rejected:
  "loop numRelays 0 0 [] (\<lambda>i. NUL) (replicate 8 False) []
     (''GET /about '' @ replicate 480 CHR ''a'')
   = (''HTTP/1.1 500 '' @ [CHR 0x0A] @ ''Content-Type: application/json'' @ [CHR 0x0A]
      @ ''Connection: close'' @ [CHR 0x0A, CHR 0x0A]
      @ ''{\"e\":1}'' @ [CHR 0x0D, CHR 0x0A],
      replicate 8 False, [])"
proof -
  have "maxSize < length (''GET /about '' @ replicate 480 CHR ''a'')"
    by (simp add: maxSize_def)
  then have "loop numRelays 0 0 [] (\<lambda>i. NUL) (replicate 8 False) []
               (''GET /about '' @ replicate 480 CHR ''a'')
             = (returnHeader RC_ERR @ returnErr 1, replicate 8 False, [])"
    by (simp add: loop_def Let_def)
  then show ?thesis
    by (simp only: returnHeader_RC_ERR returnErr_1 append_assoc)
qed

subsection \<open>Commands that the parser reads differently from their grammar\<close>

text \<open>
  After the first segment the loop is entered with \<^verbatim>\<open>src\<close> on the \<^verbatim>\<open>&\<close> that ended
  the segment before, and \<^verbatim>\<open>lastSrc = src\<close> keeps that position: the bytes copied
  for the relay number start with the \<^verbatim>\<open>&\<close>. Wherever the copy goes and whatever
  lies behind it, \<^verbatim>\<open>atoi\<close> reads a copy that starts with such a byte as 0, and the
  same holds for a letter, in the key and in the value.
\<close>

lemma drop_memcpy:
  "drop p (memcpy dst p bytes)
   = bytes @ drop (p + length bytes) (dst @ replicate (p + length bytes - length dst) NUL)"
proof -
  define d where "d = dst @ replicate (p + length bytes - length dst) NUL"
  have "p \<le> length d"
    by (simp add: d_def)
  then have "drop p (take p d @ bytes @ drop (p + length bytes) d)
             = bytes @ drop (p + length bytes) d"
    by simp
  then show ?thesis
    by (simp add: memcpy_def Let_def d_def [symmetric])
qed

lemma readInt_no_number:
  assumes "\<not> isspace c" and "\<not> isdigit c" and "c \<noteq> CHR ''-''" and "c \<noteq> CHR ''+''"
  shows "snd (readInt dst p (c # bytes)) = 0"
  using assms by (simp add: readInt_def Let_def drop_memcpy atoi_def)

lemma readInt_amp: "snd (readInt dst p (TOK_AND # bytes)) = 0"
  by (rule readInt_no_number) (simp_all add: TOK_AND_def isspace_def isdigit_def)

lemma readInt_x: "snd (readInt dst p (CHR ''x'' # bytes)) = 0"
  by (rule readInt_no_number) (simp_all add: isspace_def isdigit_def)

lemma second_segment:
  "iteration numRelays 0 8 ''0=1&1=0&2=2'' 3
     [True, False, False, False, False, False, False, False] (''0'' @ replicate 7 NUL @ ''1'')
   = Inr ([False, False, False, False, False, False, False, False],
          ''&1'' @ replicate 6 NUL @ ''0'', Some 7)"
  by code_simp

text \<open>
  C1. The round trip of the specification: on eight relays that are all off, the
  command \<^verbatim>\<open>0=1&1=0&2=2\<close> is to leave relays 0 and 2 on. With two buffers the
  sketch answers with status 200, but all three segments act on relay 0 (on, off,
  inverted): relay 0 is on at the end and relay 2 was never touched. The same holds
  when the command is the last line of a POST request. With one shared buffer the
  second value is read as \<^verbatim>\<open>01\<close> and the third as \<^verbatim>\<open>22\<close>: the answer is status 500
  with \<^verbatim>\<open>{"e":5}\<close>, and again only relay 0 is on.
\<close>

theorem three_segments_on_relay_0:
  "outcome (changeRelayStatus numRelays 0 8 (replicate 8 False) [] ''0=1&1=0&2=2'')
   = (''HTTP/1.1 200 '' @ [CHR 0x0A] @ ''Content-Type: application/json'' @ [CHR 0x0A]
      @ ''Connection: close'' @ [CHR 0x0A, CHR 0x0A]
      @ ''{\"r\":[\"ON\",\"OFF\",\"OFF\",\"OFF\",\"OFF\",\"OFF\",\"OFF\",\"OFF\"]}'' @ [CHR 0x0D, CHR 0x0A],
      [True, False, False, False, False, False, False, False])
   \<and> outcome (loop numRelays 0 8 lo hi (replicate 8 False) []
        (''POST / HTTP/1.1'' @ [CR, NL, CR, NL] @ ''0=1&1=0&2=2''))
   = (''HTTP/1.1 200 '' @ [CHR 0x0A] @ ''Content-Type: application/json'' @ [CHR 0x0A]
      @ ''Connection: close'' @ [CHR 0x0A, CHR 0x0A]
      @ ''{\"r\":[\"ON\",\"OFF\",\"OFF\",\"OFF\",\"OFF\",\"OFF\",\"OFF\",\"OFF\"]}'' @ [CHR 0x0D, CHR 0x0A],
      [True, False, False, False, False, False, False, False])
   \<and> outcome (changeRelayStatus numRelays 0 0 (replicate 8 False) [] ''0=1&1=0&2=2'')
   = (''HTTP/1.1 500 '' @ [CHR 0x0A] @ ''Content-Type: application/json'' @ [CHR 0x0A]
      @ ''Connection: close'' @ [CHR 0x0A, CHR 0x0A]
      @ ''{\"e\":5}'' @ [CHR 0x0D, CHR 0x0A],
      [True, False, False, False, False, False, False, False])"
  by code_simp

text \<open>
  C2. A key that is no number, as in \<^verbatim>\<open>x=1\<close>, is to be refused with code 4 and
  without any change. The sketch reads the key as 0, switches relay 0 on and answers
  with status 200, with two buffers and with one.
\<close>

theorem letter_key_switches_relay_0:
  "outcome (changeRelayStatus numRelays 0 8 (replicate 8 False) [] ''x=1'')
   = (''HTTP/1.1 200 '' @ [CHR 0x0A] @ ''Content-Type: application/json'' @ [CHR 0x0A]
      @ ''Connection: close'' @ [CHR 0x0A, CHR 0x0A]
      @ ''{\"r\":[\"ON\",\"OFF\",\"OFF\",\"OFF\",\"OFF\",\"OFF\",\"OFF\",\"OFF\"]}'' @ [CHR 0x0D, CHR 0x0A],
      [True, False, False, False, False, False, False, False])
   \<and> outcome (changeRelayStatus numRelays 0 0 (replicate 8 False) [] ''x=1'')
   = (''HTTP/1.1 200 '' @ [CHR 0x0A] @ ''Content-Type: application/json'' @ [CHR 0x0A]
      @ ''Connection: close'' @ [CHR 0x0A, CHR 0x0A]
      @ ''{\"r\":[\"ON\",\"OFF\",\"OFF\",\"OFF\",\"OFF\",\"OFF\",\"OFF\",\"OFF\"]}'' @ [CHR 0x0D, CHR 0x0A],
      [True, False, False, False, False, False, False, False])"
  by code_simp

text \<open>
  C3. A value of one byte other than \<^verbatim>\<open>0\<close>, \<^verbatim>\<open>1\<close>, \<^verbatim>\<open>2\<close>, as in \<^verbatim>\<open>0=x\<close>,
  is to be refused with code 5 and without any change. The sketch reads the value
  as 0: relay 0, which was on, is switched off and the answer has status 200, with
  two buffers and with one.
\<close>

theorem letter_value_switches_off:
  "outcome (changeRelayStatus numRelays 0 8 [True, False, False, False, False, False, False, False] [] ''0=x'')
   = (''HTTP/1.1 200 '' @ [CHR 0x0A] @ ''Content-Type: application/json'' @ [CHR 0x0A]
      @ ''Connection: close'' @ [CHR 0x0A, CHR 0x0A]
      @ ''{\"r\":[\"OFF\",\"OFF\",\"OFF\",\"OFF\",\"OFF\",\"OFF\",\"OFF\",\"OFF\"]}'' @ [CHR 0x0D, CHR 0x0A],
      replicate 8 False)
   \<and> outcome (changeRelayStatus numRelays 0 0 [True, False, False, False, False, False, False, False] [] ''0=x'')
   = (''HTTP/1.1 200 '' @ [CHR 0x0A] @ ''Content-Type: application/json'' @ [CHR 0x0A]
      @ ''Connection: close'' @ [CHR 0x0A, CHR 0x0A]
      @ ''{\"r\":[\"OFF\",\"OFF\",\"OFF\",\"OFF\",\"OFF\",\"OFF\",\"OFF\",\"OFF\"]}'' @ [CHR 0x0D, CHR 0x0A],
      replicate 8 False)"
  by code_simp

subsection \<open>A query string without a closing space\<close>

text \<open>Every path through \<^verbatim>\<open>changeRelayStatus\<close> sends a response.\<close>

lemma returnHeader_sends: "returnHeader code \<noteq> []"
  by (simp add: returnHeader_def HD_START_def)

lemma relayLoop_sends:
  "fst (relayLoop n relNumChar statChar command src portStatus dst) \<noteq> []"
proof (induction n relNumChar statChar command src portStatus dst rule: relayLoop.induct)
  case (1 n relNumChar statChar command src portStatus dst)
  show ?case
  proof (cases "iteration n relNumChar statChar command src portStatus dst")
    case (Inl e)
    then show ?thesis
      by (simp add: relayLoop.simps [of n relNumChar statChar command src] returnHeader_sends
          split: prod.splits)
  next
    case (Inr r)
    obtain portStatus' dst' nxt where r: "r = (portStatus', dst', nxt)"
      by (cases r)
    show ?thesis
    proof (cases nxt)
      case None
      with Inr r show ?thesis
        by (simp add: relayLoop.simps [of n relNumChar statChar command src] returnHeader_sends)
    next
      case (Some a)
      with Inr r "1.IH" [of r portStatus' "(dst', nxt)" dst' nxt a] show ?thesis
        by (simp add: relayLoop.simps [of n relNumChar statChar command src])
    qed
  qed
qed

lemma changeRelayStatus_sends:
  "fst (changeRelayStatus n relNumChar statChar portStatus dst command) \<noteq> []"
  by (simp add: changeRelayStatus_def relayLoop_sends returnHeader_sends)

text \<open>
  The branch of lines 262--265 sends the error and does not return: line 277 runs
  next, with \<^verbatim>\<open>lnl\<close> still \<^verbatim>\<open>NULL\<close>.
\<close>

lemma loop_query_no_space:
  assumes "0 < length req" and "length req \<le> maxSize"
    and "\<not> strncmp0 (heap req hi) 0 GET 3" and "strncmp0 (heap req hi) 0 POST 4"
    and "heap req hi 6 = CHR ''?''"
    and "memchr (heap req hi) 6 CHR '' '' (length req + 1) = None"
  shows "loop n relNumChar statChar lo hi portStatus dst req
         = (returnHeader RC_ERR @ returnErr 6
              @ fst (changeRelayStatus n relNumChar statChar portStatus dst (lo @ req)),
            snd (changeRelayStatus n relNumChar statChar portStatus dst (lo @ req)))"
  using assms by (simp add: loop_def Let_def split: prod.splits)

text \<open>
  C5. A POST request with \<^verbatim>\<open>?\<close> at byte 6 and no space behind it is to be
  answered with the 500 header and \<^verbatim>\<open>{"e":6}\<close> and nothing else. For the request
  \<^verbatim>\<open>POST /?0=1\<close> the sketch sends these bytes and then a second response, the one
  of \<^verbatim>\<open>changeRelayStatus\<close> on the memory from address 1 to the end of the request,
  whatever that memory \<open>lo\<close> holds and wherever the copies go.
\<close>

lemma err6_bytes:
  "returnHeader RC_ERR @ returnErr 6
   = ''HTTP/1.1 500 '' @ [CHR 0x0A] @ ''Content-Type: application/json'' @ [CHR 0x0A]
     @ ''Connection: close'' @ [CHR 0x0A, CHR 0x0A]
     @ ''{\"e\":6}'' @ [CHR 0x0D, CHR 0x0A]"
  by code_simp

theorem no_space_falls_through:
  "\<exists>more. more \<noteq> []
     \<and> fst (loop numRelays relNumChar statChar lo (\<lambda>i. NUL) portStatus dst ''POST /?0=1'')
         = (''HTTP/1.1 500 '' @ [CHR 0x0A] @ ''Content-Type: application/json'' @ [CHR 0x0A]
            @ ''Connection: close'' @ [CHR 0x0A, CHR 0x0A]
            @ ''{\"e\":6}'' @ [CHR 0x0D, CHR 0x0A]) @ more"
proof -
  have a: "0 < length ''POST /?0=1''" and b: "length ''POST /?0=1'' \<le> maxSize"
    by (simp_all add: maxSize_def)
  have g: "\<not> strncmp0 (heap ''POST /?0=1'' (\<lambda>i. NUL)) 0 GET 3"
    by code_simp
  have p: "strncmp0 (heap ''POST /?0=1'' (\<lambda>i. NUL)) 0 POST 4"
    by code_simp
  have q: "heap ''POST /?0=1'' (\<lambda>i. NUL) 6 = CHR ''?''"
    by code_simp
  have s: "memchr (heap ''POST /?0=1'' (\<lambda>i. NUL)) 6 CHR '' '' (length ''POST /?0=1'' + 1) = None"
    by code_simp
  have "fst (loop numRelays relNumChar statChar lo (\<lambda>i. NUL) portStatus dst ''POST /?0=1'')
        = (returnHeader RC_ERR @ returnErr 6)
          @ fst (changeRelayStatus numRelays relNumChar statChar portStatus dst
                   (lo @ ''POST /?0=1''))"
    by (simp only: loop_query_no_space [OF a b g p q s] fst_conv append_assoc)
  then have "fst (loop numRelays relNumChar statChar lo (\<lambda>i. NUL) portStatus dst ''POST /?0=1'')
        = (''HTTP/1.1 500 '' @ [CHR 0x0A] @ ''Content-Type: application/json'' @ [CHR 0x0A]
           @ ''Connection: close'' @ [CHR 0x0A, CHR 0x0A]
           @ ''{\"e\":6}'' @ [CHR 0x0D, CHR 0x0A])
          @ fst (changeRelayStatus numRelays relNumChar statChar portStatus dst
                   (lo @ ''POST /?0=1''))"
    by (simp only: err6_bytes)
  with changeRelayStatus_sends show ?thesis by blast
qed

text \<open>
  What the second response is, and whether \<^verbatim>\<open>portStatus\<close> changes, depends on the
  memory below the buffer. If it starts with a well-formed segment, a relay is
  switched.
\<close>

lemma no_space_falls_through_mutation:
  "outcome (loop numRelays 0 0 ''0=1&'' (\<lambda>i. NUL) (replicate 8 False) [] ''POST /?0=1'')
   = (returnHeader RC_ERR @ returnErr 6 @ returnHeader RC_ERR @ returnErr 4,
      [True, False, False, False, False, False, False, False])"
  by code_simp

subsection \<open>A command is processed from left to right\<close>

text \<open>
  The command is a sequence of bytes with its terminator behind it; a prefix of the
  command reads the same inside the longer command.
\<close>

lemma cstr_below: "i < length s \<Longrightarrow> cstr s i = s ! i"
  by (simp add: cstr_def)

lemma cstr_NUL: "length s \<le> i \<Longrightarrow> cstr s i = NUL"
  by (simp add: cstr_def)

lemma cstr_hit: "cstr s i = c \<Longrightarrow> c \<noteq> NUL \<Longrightarrow> i < length s"
  by (auto simp: cstr_def split: if_splits)

lemma cstr_append: "i < length s \<Longrightarrow> cstr (s @ t) i = cstr s i"
  by (simp add: cstr_def nth_append)

lemma take_drop_append:
  "s + k \<le> length xs \<Longrightarrow> take k (drop s (xs @ ys)) = take k (drop s xs)"
  by simp

lemma TOK_not_NUL: "TOK_EQU \<noteq> NUL" "TOK_AND \<noteq> NUL"
  by (simp_all add: TOK_EQU_def TOK_AND_def NUL_def)

lemma memchr_extend:
  assumes hit: "memchr (cstr s) p c k = Some i" and c: "c \<noteq> NUL" and k: "k \<le> k'"
  shows "memchr (cstr (s @ t)) p c k' = Some i"
proof (rule memchr_SomeI)
  from memchr_range [OF hit] k show "p \<le> i" "i < p + k'" by auto
  from memchr_first [OF hit] have at: "cstr s i = c"
    and first: "\<forall>j. p \<le> j \<and> j < i \<longrightarrow> cstr s j \<noteq> c" by auto
  from cstr_hit [OF at c] have i: "i < length s" .
  then show "cstr (s @ t) i = c"
    using at by (simp add: cstr_append)
  show "\<forall>j. p \<le> j \<and> j < i \<longrightarrow> cstr (s @ t) j \<noteq> c"
    using first i by (simp add: cstr_append)
qed

text \<open>A pass that reaches the end of the body, taken apart and put together.\<close>

lemma iteration_Inr_iff:
  "iteration n relNumChar statChar command src portStatus dst = Inr (portStatus', dst', nxt) \<longleftrightarrow>
     (\<exists>eq dst1 relNum stat.
        memchr (cstr command) (src + 1) TOK_EQU (length command - src) = Some eq
        \<and> eq - src \<le> RCL n
        \<and> readInt dst relNumChar (take (eq - src) (drop src command)) = (dst1, relNum)
        \<and> relNum < int n \<and> 0 \<le> relNum
        \<and> nxt = memchr (cstr command) (eq + 2) TOK_AND (length command - eq - 1)
        \<and> (case nxt of Some a \<Rightarrow> a - (eq + 1) | None \<Rightarrow> length command - eq - 1) = 1
        \<and> readInt dst1 statChar (take 1 (drop (eq + 1) command)) = (dst', stat)
        \<and> switchStat portStatus (nat relNum) stat = Some portStatus')"
  by (auto simp: iteration_def Let_def split: option.splits if_splits prod.splits)

lemma iteration_InrD:
  assumes "iteration n relNumChar statChar command src portStatus dst
           = Inr (portStatus', dst', nxt)"
  obtains eq dst1 relNum stat where
    "memchr (cstr command) (src + 1) TOK_EQU (length command - src) = Some eq"
    and "eq - src \<le> RCL n"
    and "readInt dst relNumChar (take (eq - src) (drop src command)) = (dst1, relNum)"
    and "relNum < int n" and "0 \<le> relNum"
    and "memchr (cstr command) (eq + 2) TOK_AND (length command - eq - 1) = nxt"
    and "(case nxt of Some a \<Rightarrow> a - (eq + 1) | None \<Rightarrow> length command - eq - 1) = 1"
    and "readInt dst1 statChar (take 1 (drop (eq + 1) command)) = (dst', stat)"
    and "switchStat portStatus (nat relNum) stat = Some portStatus'"
  using assms unfolding iteration_Inr_iff by blast

lemma iteration_InrI:
  assumes "memchr (cstr command) (src + 1) TOK_EQU (length command - src) = Some eq"
    and "eq - src \<le> RCL n"
    and "readInt dst relNumChar (take (eq - src) (drop src command)) = (dst1, relNum)"
    and "relNum < int n" and "0 \<le> relNum"
    and "memchr (cstr command) (eq + 2) TOK_AND (length command - eq - 1) = nxt"
    and "(case nxt of Some a \<Rightarrow> a - (eq + 1) | None \<Rightarrow> length command - eq - 1) = 1"
    and "readInt dst1 statChar (take 1 (drop (eq + 1) command)) = (dst', stat)"
    and "switchStat portStatus (nat relNum) stat = Some portStatus'"
  shows "iteration n relNumChar statChar command src portStatus dst
         = Inr (portStatus', dst', nxt)"
  unfolding iteration_Inr_iff using assms by blast

lemma iteration_prefix:
  assumes it: "iteration n relNumChar statChar c1 src portStatus dst
               = Inr (portStatus', dst', nxt)"
  shows "iteration n relNumChar statChar (c1 @ TOK_AND # c2) src portStatus dst
         = Inr (portStatus', dst', Some (case nxt of None \<Rightarrow> length c1 | Some a \<Rightarrow> a))"
proof -
  let ?c = "c1 @ TOK_AND # c2"
  from it obtain eq dst1 relNum stat where
    eq: "memchr (cstr c1) (src + 1) TOK_EQU (length c1 - src) = Some eq"
    and relLen: "eq - src \<le> RCL n"
    and num: "readInt dst relNumChar (take (eq - src) (drop src c1)) = (dst1, relNum)"
    and hi: "relNum < int n" and lo: "0 \<le> relNum"
    and nxt: "memchr (cstr c1) (eq + 2) TOK_AND (length c1 - eq - 1) = nxt"
    and statLen: "(case nxt of Some a \<Rightarrow> a - (eq + 1) | None \<Rightarrow> length c1 - eq - 1) = 1"
    and st: "readInt dst1 statChar (take 1 (drop (eq + 1) c1)) = (dst', stat)"
    and sw: "switchStat portStatus (nat relNum) stat = Some portStatus'"
    by (rule iteration_InrD)
  from memchr_first [OF eq] have "cstr c1 eq = TOK_EQU" by simp
  from cstr_hit [OF this TOK_not_NUL(1)] have eq_in: "eq < length c1" .
  from memchr_range [OF eq] have src_eq: "src < eq" by simp
  have eq': "memchr (cstr ?c) (src + 1) TOK_EQU (length ?c - src) = Some eq"
    using eq TOK_not_NUL(1) by (rule memchr_extend) simp
  have key: "take (eq - src) (drop src ?c) = take (eq - src) (drop src c1)"
    using eq_in src_eq by (intro take_drop_append) simp
  obtain a where a: "memchr (cstr ?c) (eq + 2) TOK_AND (length ?c - eq - 1) = Some a"
    and a_nxt: "a = (case nxt of None \<Rightarrow> length c1 | Some a \<Rightarrow> a)"
    and a_len: "a - (eq + 1) = 1" and a_in: "eq + 2 \<le> a" "a \<le> length c1"
  proof (cases nxt)
    case None
    with statLen have end1: "length c1 = eq + 2" by simp
    have "cstr ?c (length c1) = TOK_AND"
      by (simp add: cstr_def)
    then have "memchr (cstr ?c) (length c1) TOK_AND (length ?c - eq - 1) = Some (length c1)"
      using end1 by (intro memchr_SomeI) auto
    then have "memchr (cstr ?c) (eq + 2) TOK_AND (length ?c - eq - 1) = Some (length c1)"
      by (simp only: end1)
    with None end1 that [of "length c1"] show ?thesis by simp
  next
    case (Some b)
    with nxt have b: "memchr (cstr c1) (eq + 2) TOK_AND (length c1 - eq - 1) = Some b"
      by simp
    from memchr_first [OF b] have "cstr c1 b = TOK_AND" by simp
    from cstr_hit [OF this TOK_not_NUL(2)] have b_in: "b \<le> length c1" by simp
    have b': "memchr (cstr ?c) (eq + 2) TOK_AND (length ?c - eq - 1) = Some b"
      using b TOK_not_NUL(2) by (rule memchr_extend) simp
    from memchr_range [OF b] have b_lo: "eq + 2 \<le> b" by simp
    have b_nxt: "b = (case nxt of None \<Rightarrow> length c1 | Some a \<Rightarrow> a)"
      by (simp only: Some option.case)
    have b_len: "b - (eq + 1) = 1"
      using statLen by (simp only: Some option.case)
    from b' b_nxt b_len b_lo b_in show ?thesis by (rule that)
  qed
  have val: "take 1 (drop (eq + 1) ?c) = take 1 (drop (eq + 1) c1)"
    using a_in by (intro take_drop_append) simp
  have num': "readInt dst relNumChar (take (eq - src) (drop src ?c)) = (dst1, relNum)"
    by (simp only: key num)
  have st': "readInt dst1 statChar (take 1 (drop (eq + 1) ?c)) = (dst', stat)"
    by (simp only: val st)
  have nxt': "memchr (cstr ?c) (eq + 2) TOK_AND (length ?c - eq - 1)
              = Some (case nxt of None \<Rightarrow> length c1 | Some a \<Rightarrow> a)"
    by (simp only: a a_nxt [symmetric])
  have statLen': "(case Some (case nxt of None \<Rightarrow> length c1 | Some a \<Rightarrow> a) of
                     Some a \<Rightarrow> a - (eq + 1) | None \<Rightarrow> length ?c - eq - 1) = 1"
    by (simp only: option.case a_nxt [symmetric] a_len)
  from eq' relLen num' hi lo nxt' statLen' st' sw
  show ?thesis by (rule iteration_InrI)
qed

text \<open>
  If the loop accepts a command \<open>c1\<close>, then on \<open>c1\<close> followed by \<^verbatim>\<open>&\<close> and more bytes it
  makes the same passes with the same copies and the same changes to
  \<^verbatim>\<open>portStatus\<close>, and goes on with the next pass at the \<^verbatim>\<open>&\<close>.
\<close>

lemma err_not_ok: "returnHeader RC_ERR @ x \<noteq> returnHeader RC_OK @ y"
  by (simp add: returnHeader_RC_ERR returnHeader_RC_OK)

lemma relayLoop_prefix:
  assumes "fst (relayLoop n relNumChar statChar c1 src portStatus dst) = returnHeader RC_OK @ out"
  shows "relayLoop n relNumChar statChar (c1 @ TOK_AND # c2) src portStatus dst
         = relayLoop n relNumChar statChar (c1 @ TOK_AND # c2) (length c1)
             (fst (snd (relayLoop n relNumChar statChar c1 src portStatus dst)))
             (snd (snd (relayLoop n relNumChar statChar c1 src portStatus dst)))"
  using assms
proof (induction n relNumChar statChar c1 src portStatus dst rule: relayLoop.induct)
  case (1 n relNumChar statChar c1 src portStatus dst)
  note unfold1 = relayLoop.simps [of n relNumChar statChar c1 src portStatus dst]
  note unfold2 = relayLoop.simps [of n relNumChar statChar "c1 @ TOK_AND # c2" src portStatus dst]
  show ?case
  proof (cases "iteration n relNumChar statChar c1 src portStatus dst")
    case (Inl e)
    with "1.prems" have False
      by (simp add: unfold1 err_not_ok split: prod.splits)
    then show ?thesis ..
  next
    case (Inr r)
    obtain portStatus' dst' nxt where r: "r = (portStatus', dst', nxt)"
      by (cases r)
    from Inr r have it: "iteration n relNumChar statChar c1 src portStatus dst
                         = Inr (portStatus', dst', nxt)"
      by simp
    show ?thesis
    proof (cases nxt)
      case None
      from iteration_prefix [OF it, of c2] None
      have "iteration n relNumChar statChar (c1 @ TOK_AND # c2) src portStatus dst
            = Inr (portStatus', dst', Some (length c1))"
        by simp
      with it None show ?thesis
        by (simp add: unfold1 unfold2)
    next
      case (Some a)
      from iteration_prefix [OF it, of c2] Some
      have it': "iteration n relNumChar statChar (c1 @ TOK_AND # c2) src portStatus dst
                 = Inr (portStatus', dst', Some a)"
        by simp
      from it Some have step: "relayLoop n relNumChar statChar c1 src portStatus dst
                               = relayLoop n relNumChar statChar c1 a portStatus' dst'"
        by (simp add: unfold1)
      with "1.prems"
      have "fst (relayLoop n relNumChar statChar c1 a portStatus' dst') = returnHeader RC_OK @ out"
        by simp
      with "1.IH" [of r portStatus' "(dst', nxt)" dst' nxt a] Inr r Some
      have "relayLoop n relNumChar statChar (c1 @ TOK_AND # c2) a portStatus' dst'
            = relayLoop n relNumChar statChar (c1 @ TOK_AND # c2) (length c1)
                (fst (snd (relayLoop n relNumChar statChar c1 a portStatus' dst')))
                (snd (snd (relayLoop n relNumChar statChar c1 a portStatus' dst')))"
        by simp
      with it' step show ?thesis
        by (simp add: unfold2)
    qed
  qed
qed

lemma changeRelayStatus_prefix:
  assumes "changeRelayStatus n relNumChar statChar portStatus dst c1
           = (returnHeader RC_OK @ out, portStatus1, dst1)"
  shows "changeRelayStatus n relNumChar statChar portStatus dst (c1 @ TOK_AND # c2)
         = relayLoop n relNumChar statChar (c1 @ TOK_AND # c2) (length c1) portStatus1 dst1"
proof (cases "length c1 < 3")
  case True
  with assms have False
    by (simp add: changeRelayStatus_def err_not_ok)
  then show ?thesis ..
next
  case False
  with assms have r: "relayLoop n relNumChar statChar c1 0 portStatus dst
                      = (returnHeader RC_OK @ out, portStatus1, dst1)"
    by (simp add: changeRelayStatus_def)
  then have "fst (relayLoop n relNumChar statChar c1 0 portStatus dst) = returnHeader RC_OK @ out"
    by simp
  from relayLoop_prefix [OF this, of c2] r False show ?thesis
    by (simp add: changeRelayStatus_def)
qed

text \<open>
  C6. Segments are handled in the order of the command, and a segment that fails
  stops the loop with the error response while \<^verbatim>\<open>portStatus\<close> keeps what the
  segments before it did: if the command \<open>c1\<close> alone is accepted and leaves
  \<open>portStatus1\<close>, and the pass that starts at the \<^verbatim>\<open>&\<close> behind \<open>c1\<close> ends with signal
  code \<open>rc\<close>, then the whole command is answered with the header for status 500 and
  that code, and leaves \<open>portStatus1\<close>. This holds wherever the copies go.
\<close>

theorem failing_segment_keeps_earlier_mutations:
  assumes "changeRelayStatus n relNumChar statChar portStatus dst c1
           = (returnHeader RC_OK @ printRelayStatus n portStatus1, portStatus1, dst1)"
    and "iteration n relNumChar statChar (c1 @ TOK_AND # c2) (length c1) portStatus1 dst1
         = Inl (rc, dst2)"
  shows "changeRelayStatus n relNumChar statChar portStatus dst (c1 @ TOK_AND # c2)
         = (returnHeader RC_ERR @ returnErr rc, portStatus1, dst2)
         \<and> returnHeader RC_ERR =
             ''HTTP/1.1 500 '' @ [CHR 0x0A] @ ''Content-Type: application/json'' @ [CHR 0x0A]
             @ ''Connection: close'' @ [CHR 0x0A, CHR 0x0A]"
  using changeRelayStatus_prefix [OF assms(1), of c2] assms(2)
  by (simp add: relayLoop.simps [of n relNumChar statChar "c1 @ TOK_AND # c2" "length c1"]
      returnHeader_RC_ERR)

theorem failing_segment_keeps_earlier_mutations_witness:
  "changeRelayStatus numRelays 0 0 (replicate 8 False) [] ''3=1''
     = (returnHeader RC_OK @ printRelayStatus numRelays [False, False, False, True, False, False, False, False],
        [False, False, False, True, False, False, False, False], ''1'')
   \<and> iteration numRelays 0 0 (''3=1'' @ TOK_AND # ''4=7&6=1'') (length ''3=1'')
        [False, False, False, True, False, False, False, False] ''1'' = Inl (5, ''74'')
   \<and> changeRelayStatus numRelays 0 0 (replicate 8 False) [] (''3=1'' @ TOK_AND # ''4=7&6=1'')
     = (returnHeader RC_ERR @ returnErr 5, [False, False, False, True, False, False, False, False], ''74'')"
proof -
  have a: "changeRelayStatus numRelays 0 0 (replicate 8 False) [] ''3=1''
     = (returnHeader RC_OK @ printRelayStatus numRelays [False, False, False, True, False, False, False, False],
        [False, False, False, True, False, False, False, False], ''1'')"
    by code_simp
  have b: "iteration numRelays 0 0 (''3=1'' @ TOK_AND # ''4=7&6=1'') (length ''3=1'')
        [False, False, False, True, False, False, False, False] ''1'' = Inl (5, ''74'')"
    by code_simp
  from a b failing_segment_keeps_earlier_mutations [OF a b] show ?thesis
    by blast
qed

subsection \<open>The length check of the relay number\<close>

lemma iteration_long_key:
  assumes "memchr (cstr command) (src + 1) TOK_EQU (length command - src) = Some eq"
    and "RCL n < eq - src"
  shows "iteration n relNumChar statChar command src portStatus dst = Inl (4, dst)"
  using assms by (simp add: iteration_def Let_def)

lemma key_no_eq:
  assumes "TOK_EQU \<notin> set k" and "j < length k"
  shows "cstr (pre @ k @ t) (length pre + j) \<noteq> TOK_EQU"
proof -
  have "cstr (pre @ k @ t) (length pre + j) = k ! j"
    using assms(2) by (simp add: cstr_def nth_append)
  moreover have "k ! j \<in> set k"
    using assms(2) by (rule nth_mem)
  ultimately show ?thesis
    using assms(1) by metis
qed

lemma memchr_after_key:
  assumes k: "TOK_EQU \<notin> set k" and p: "length pre \<le> p" "p \<le> length pre + length k"
    and cnt: "length pre + length k < p + cnt"
  shows "memchr (cstr (pre @ k @ TOK_EQU # rest)) p TOK_EQU cnt = Some (length pre + length k)"
proof (rule memchr_SomeI)
  show "p \<le> length pre + length k" by (rule p(2))
  show "length pre + length k < p + cnt" by (rule cnt)
  show "cstr (pre @ k @ TOK_EQU # rest) (length pre + length k) = TOK_EQU"
    by (simp add: cstr_def nth_append)
  show "\<forall>j. p \<le> j \<and> j < length pre + length k
            \<longrightarrow> cstr (pre @ k @ TOK_EQU # rest) j \<noteq> TOK_EQU"
  proof (intro allI impI)
    fix j assume j: "p \<le> j \<and> j < length pre + length k"
    with p(1) have "j - length pre < length k" and "j = length pre + (j - length pre)"
      by auto
    with key_no_eq [OF k, of "j - length pre" pre "TOK_EQU # rest"]
    show "cstr (pre @ k @ TOK_EQU # rest) j \<noteq> TOK_EQU"
      by simp
  qed
qed

lemma memchr_first_key:
  assumes k: "TOK_EQU \<notin> set k" and pos: "1 \<le> length k"
  shows "memchr (cstr (k @ TOK_EQU # rest)) (0 + 1) TOK_EQU (length (k @ TOK_EQU # rest) - 0)
         = Some (length k)"
proof -
  have "memchr (cstr ([] @ k @ TOK_EQU # rest)) (0 + 1) TOK_EQU (length (k @ TOK_EQU # rest) - 0)
        = Some (length ([] :: char list) + length k)"
  proof (rule memchr_after_key [OF k])
    show "length ([] :: char list) \<le> 0 + 1" by simp
    show "0 + 1 \<le> length ([] :: char list) + length k" using pos by simp
    show "length ([] :: char list) + length k < 0 + 1 + (length (k @ TOK_EQU # rest) - 0)"
      by simp
  qed
  then show ?thesis by simp
qed

lemma first_key_too_long:
  assumes k: "TOK_EQU \<notin> set k" and len: "RCL n < length k"
  shows "changeRelayStatus n relNumChar statChar portStatus dst (k @ TOK_EQU # rest)
         = (returnHeader RC_ERR @ returnErr 4, portStatus, dst)"
proof -
  let ?cmd = "k @ TOK_EQU # rest"
  have three: "3 \<le> length k"
    using len by (simp add: RCL_def split: if_splits)
  then have "1 \<le> length k" by simp
  with k have "memchr (cstr ?cmd) (0 + 1) TOK_EQU (length ?cmd - 0) = Some (length k)"
    by (rule memchr_first_key)
  moreover have "RCL n < length k - 0"
    using len by simp
  ultimately have "iteration n relNumChar statChar ?cmd 0 portStatus dst = Inl (4, dst)"
    by (rule iteration_long_key)
  then show ?thesis
    using three
    by (simp add: changeRelayStatus_def relayLoop.simps [of n relNumChar statChar ?cmd 0])
qed

lemma err4_bytes:
  "returnHeader RC_ERR @ returnErr 4
   = ''HTTP/1.1 500 '' @ [CHR 0x0A] @ ''Content-Type: application/json'' @ [CHR 0x0A]
     @ ''Connection: close'' @ [CHR 0x0A, CHR 0x0A]
     @ ''{\"e\":4}'' @ [CHR 0x0D, CHR 0x0A]"
  by code_simp

text \<open>
  C4. The check of line 355 compares \<^verbatim>\<open>relLen\<close>, the distance from the start of the
  pass to the \<^verbatim>\<open>=\<close>, with \<open>RCL\<close>, which is 3 for up to nine relays. In the first
  segment that distance is the length of the key; in a later segment it counts the
  \<^verbatim>\<open>&\<close> too. So with at most nine relays a first segment whose key is longer than 3
  bytes, and a segment behind an accepted command whose key is longer than 2 bytes,
  is refused with the header for status 500 and \<^verbatim>\<open>{"e":4}\<close>; \<^verbatim>\<open>portStatus\<close> is what
  the segments before it left, and the refused segment is not copied. This holds
  wherever the copies go.
\<close>

theorem long_key_rejected:
  assumes n: "n \<le> 9" and k: "TOK_EQU \<notin> set k"
  shows "(3 < length k \<longrightarrow>
            changeRelayStatus n relNumChar statChar portStatus dst (k @ TOK_EQU # rest)
            = (returnHeader RC_ERR @ returnErr 4, portStatus, dst))
       \<and> (2 < length k
            \<and> changeRelayStatus n relNumChar statChar portStatus dst c1
              = (returnHeader RC_OK @ printRelayStatus n portStatus1, portStatus1, dst1) \<longrightarrow>
            changeRelayStatus n relNumChar statChar portStatus dst
              (c1 @ TOK_AND # k @ TOK_EQU # rest)
            = (returnHeader RC_ERR @ returnErr 4, portStatus1, dst1))
       \<and> returnHeader RC_ERR @ returnErr 4
           = ''HTTP/1.1 500 '' @ [CHR 0x0A] @ ''Content-Type: application/json'' @ [CHR 0x0A]
             @ ''Connection: close'' @ [CHR 0x0A, CHR 0x0A]
             @ ''{\"e\":4}'' @ [CHR 0x0D, CHR 0x0A]"
proof (intro conjI impI)
  assume len: "3 < length k"
  with n have "RCL n < length k"
    by (simp add: RCL_def)
  with k show "changeRelayStatus n relNumChar statChar portStatus dst (k @ TOK_EQU # rest)
               = (returnHeader RC_ERR @ returnErr 4, portStatus, dst)"
    by (rule first_key_too_long)
next
  assume h: "2 < length k
     \<and> changeRelayStatus n relNumChar statChar portStatus dst c1
       = (returnHeader RC_OK @ printRelayStatus n portStatus1, portStatus1, dst1)"
  then have c1: "changeRelayStatus n relNumChar statChar portStatus dst c1
       = (returnHeader RC_OK @ printRelayStatus n portStatus1, portStatus1, dst1)"
    by simp
  let ?cmd = "c1 @ TOK_AND # k @ TOK_EQU # rest"
  have "memchr (cstr ((c1 @ [TOK_AND]) @ k @ TOK_EQU # rest)) (length c1 + 1) TOK_EQU
          (length ?cmd - length c1)
        = Some (length (c1 @ [TOK_AND]) + length k)"
    using k by (intro memchr_after_key) simp_all
  then have "memchr (cstr ?cmd) (length c1 + 1) TOK_EQU (length ?cmd - length c1)
             = Some (length c1 + 1 + length k)"
    by simp
  moreover have "RCL n < length c1 + 1 + length k - length c1"
    using n h by (simp add: RCL_def)
  ultimately have "iteration n relNumChar statChar ?cmd (length c1) portStatus1 dst1
                   = Inl (4, dst1)"
    by (rule iteration_long_key)
  with changeRelayStatus_prefix [OF c1, of "k @ TOK_EQU # rest"]
  show "changeRelayStatus n relNumChar statChar portStatus dst ?cmd
        = (returnHeader RC_ERR @ returnErr 4, portStatus1, dst1)"
    by (simp add: relayLoop.simps [of n relNumChar statChar ?cmd "length c1"])
next
  show "returnHeader RC_ERR @ returnErr 4
        = ''HTTP/1.1 500 '' @ [CHR 0x0A] @ ''Content-Type: application/json'' @ [CHR 0x0A]
          @ ''Connection: close'' @ [CHR 0x0A, CHR 0x0A]
          @ ''{\"e\":4}'' @ [CHR 0x0D, CHR 0x0A]"
    by (rule err4_bytes)
qed

theorem long_key_rejected_witness:
  "numRelays \<le> 9 \<and> TOK_EQU \<notin> set ''0007'' \<and> 3 < length ''0007''
   \<and> TOK_EQU \<notin> set ''007'' \<and> 2 < length ''007''
   \<and> changeRelayStatus numRelays 0 0 (replicate 8 False) [] ''3=1''
       = (returnHeader RC_OK @ printRelayStatus numRelays [False, False, False, True, False, False, False, False],
          [False, False, False, True, False, False, False, False], ''1'')
   \<and> changeRelayStatus numRelays 0 0 (replicate 8 False) [] (''0007'' @ TOK_EQU # ''1'')
       = (returnHeader RC_ERR @ returnErr 4, replicate 8 False, [])
   \<and> changeRelayStatus numRelays 0 0 (replicate 8 False) []
         (''3=1'' @ TOK_AND # ''007'' @ TOK_EQU # ''1'')
       = (returnHeader RC_ERR @ returnErr 4, [False, False, False, True, False, False, False, False], ''1'')"
proof -
  have n: "numRelays \<le> 9" by (simp add: numRelays_def)
  have k4: "TOK_EQU \<notin> set ''0007''" and k3: "TOK_EQU \<notin> set ''007''"
    by (simp_all add: TOK_EQU_def)
  have l4: "3 < length ''0007''" and l3: "2 < length ''007''" by simp_all
  have a: "changeRelayStatus numRelays 0 0 (replicate 8 False) [] ''3=1''
       = (returnHeader RC_OK @ printRelayStatus numRelays [False, False, False, True, False, False, False, False],
          [False, False, False, True, False, False, False, False], ''1'')"
    by code_simp
  from n k4 k3 l4 l3 a
    long_key_rejected [OF n k4, of 0 0 "replicate 8 False" "[]" "''1''"]
    long_key_rejected [OF n k3, of 0 0 "replicate 8 False" "[]" "''1''" "''3=1''"
      "[False, False, False, True, False, False, False, False]" "''1''"]
  show ?thesis by simp
qed

text \<open>
  Shorter keys are not refused with code 4. With two buffers \<^verbatim>\<open>007=1\<close> switches
  relay 7 on; with one shared buffer its value is read as \<^verbatim>\<open>107\<close> and the answer is
  \<^verbatim>\<open>{"e":5}\<close>. \<^verbatim>\<open>7x=1\<close> switches relay 7 on either way. Behind an accepted
  segment a key of two bytes passes the check as well: \<^verbatim>\<open>3=1&07=1\<close> is answered
  with status 200 with two buffers and with \<^verbatim>\<open>{"e":5}\<close> with one.
\<close>

theorem short_key_not_refused_with_4:
  "outcome (changeRelayStatus numRelays 0 8 (replicate 8 False) [] ''007=1'')
   = (''HTTP/1.1 200 '' @ [CHR 0x0A] @ ''Content-Type: application/json'' @ [CHR 0x0A]
      @ ''Connection: close'' @ [CHR 0x0A, CHR 0x0A]
      @ ''{\"r\":[\"OFF\",\"OFF\",\"OFF\",\"OFF\",\"OFF\",\"OFF\",\"OFF\",\"ON\"]}'' @ [CHR 0x0D, CHR 0x0A],
      [False, False, False, False, False, False, False, True])
   \<and> outcome (changeRelayStatus numRelays 0 0 (replicate 8 False) [] ''007=1'')
   = (''HTTP/1.1 500 '' @ [CHR 0x0A] @ ''Content-Type: application/json'' @ [CHR 0x0A]
      @ ''Connection: close'' @ [CHR 0x0A, CHR 0x0A]
      @ ''{\"e\":5}'' @ [CHR 0x0D, CHR 0x0A],
      replicate 8 False)
   \<and> outcome (changeRelayStatus numRelays 0 8 (replicate 8 False) [] ''7x=1'')
   = (''HTTP/1.1 200 '' @ [CHR 0x0A] @ ''Content-Type: application/json'' @ [CHR 0x0A]
      @ ''Connection: close'' @ [CHR 0x0A, CHR 0x0A]
      @ ''{\"r\":[\"OFF\",\"OFF\",\"OFF\",\"OFF\",\"OFF\",\"OFF\",\"OFF\",\"ON\"]}'' @ [CHR 0x0D, CHR 0x0A],
      [False, False, False, False, False, False, False, True])
   \<and> outcome (changeRelayStatus numRelays 0 0 (replicate 8 False) [] ''7x=1'')
   = (''HTTP/1.1 200 '' @ [CHR 0x0A] @ ''Content-Type: application/json'' @ [CHR 0x0A]
      @ ''Connection: close'' @ [CHR 0x0A, CHR 0x0A]
      @ ''{\"r\":[\"OFF\",\"OFF\",\"OFF\",\"OFF\",\"OFF\",\"OFF\",\"OFF\",\"ON\"]}'' @ [CHR 0x0D, CHR 0x0A],
      [False, False, False, False, False, False, False, True])
   \<and> outcome (changeRelayStatus numRelays 0 8 (replicate 8 False) [] ''3=1&07=1'')
   = (''HTTP/1.1 200 '' @ [CHR 0x0A] @ ''Content-Type: application/json'' @ [CHR 0x0A]
      @ ''Connection: close'' @ [CHR 0x0A, CHR 0x0A]
      @ ''{\"r\":[\"ON\",\"OFF\",\"OFF\",\"ON\",\"OFF\",\"OFF\",\"OFF\",\"OFF\"]}'' @ [CHR 0x0D, CHR 0x0A],
      [True, False, False, True, False, False, False, False])
   \<and> outcome (changeRelayStatus numRelays 0 0 (replicate 8 False) [] ''3=1&07=1'')
   = (''HTTP/1.1 500 '' @ [CHR 0x0A] @ ''Content-Type: application/json'' @ [CHR 0x0A]
      @ ''Connection: close'' @ [CHR 0x0A, CHR 0x0A]
      @ ''{\"e\":5}'' @ [CHR 0x0D, CHR 0x0A],
      [False, False, False, True, False, False, False, False])"
  by code_simp

subsection \<open>Commands of one segment\<close>


















end
